theory Spec2Isabelle
  imports Main
begin

section \<open>The property graph of glTF-Transform: data model\<close>

text \<open>
  The class \<open>Property\<close> (packages/core, \<open>properties/property.ts\<close>) extends
  \<open>GraphNode\<close> and keeps its outgoing extension links in the array \<open>this.extensions\<close>.
  Objects are shared and mutated in place, so the model is an explicit store: a node is
  a natural number (its reference), the store maps every reference to the fields of the
  object, and every operation takes the store and returns the store it leaves behind,
  also when it throws.
\<close>

text \<open>
  The three error kinds of the design. In the source \<open>clone\<close> throws
  \<open>new Error('Not implemented.')\<close>, which is \<open>NotImplemented\<close> here.
\<close>

datatype error = InvalidOperation | InvalidState | NotImplemented

text \<open>
  A \<open>Link\<close> object: a named edge from a parent to a child. Two links created
  separately are different objects even when they join the same nodes under the same
  name; \<open>lid\<close> is that identity. A link is never modified after its creation.
\<close>

record link =
  lid :: nat
  lname :: string
  lparent :: nat
  lchild :: nat

text \<open>
  The fields of a \<open>Property\<close>: \<open>propertyType\<close>, \<open>_graph\<close> (the graph instance
  the node was constructed with), \<open>_name\<close>, \<open>_extras\<close> (an opaque object),
  the array \<open>extensions\<close>, the field \<open>extensionName\<close> that the subclass
  \<open>ExtensionProperty\<close> adds (it is read by \<open>getExtension\<close> and \<open>setExtension\<close>),
  and the disposed flag of \<open>GraphNode\<close>.
\<close>

record property =
  propertyType :: string
  p_graph :: nat
  p_name :: string
  p_extras :: "(string \<times> string) list"
  extensions :: "link list"
  extensionName :: string
  disposed :: bool

text \<open>
  The store: the objects, the links registered with the graphs (in creation order), and
  the identity the next link will get. A link joins two nodes of one graph, so the
  registry of a graph instance is the part of \<open>links\<close> between its nodes.
\<close>

record state =
  props :: "nat \<Rightarrow> property"
  links :: "link list"
  fresh :: nat

type_synonym 'a outcome = "(error + 'a) \<times> state"

section \<open>The graph engine\<close>

text \<open>
  Modelled from the spec: the files of \<open>GraphNode\<close>, \<open>Link\<close> and
  \<open>PropertyGraph\<close> (\<open>link\<close>, \<open>disconnectParents\<close>, the disposal path,
  \<open>listGraphParents\<close>, \<open>addGraphChild\<close>, \<open>removeGraphChild\<close>) are not among
  the sources; the definitions of this section follow sections 4.1 to 4.3 of the
  specification.
\<close>

text \<open>
  Modelled from the spec: destroying links is missing from the sources. A destroyed link
  leaves the registry and the owned list of its parent; a link object sits in no other
  list, so it is removed wherever it occurs.
\<close>

definition disposeLinks :: "link list \<Rightarrow> state \<Rightarrow> state" where
  "disposeLinks ls s =
     s\<lparr>props := (\<lambda>i. (props s i)\<lparr>extensions :=
                   filter (\<lambda>l. l \<notin> set ls) (extensions (props s i))\<rparr>),
       links := filter (\<lambda>l. l \<notin> set ls) (links s)\<rparr>"

text \<open>
  Modelled from the spec: \<open>PropertyGraph.link\<close> is missing from the sources. Section 4.1:
  it creates and registers a new link from \<open>parent\<close> to \<open>child\<close>, and fails with
  \<open>InvalidOperation\<close> if either node belongs to a different graph instance or is
  already disposed. The first argument after the store is the graph instance the method
  is called on.
\<close>

text \<open>
  Modelled from the spec: the test under which \<open>PropertyGraph.link\<close> accepts a
  pair of nodes, in the words of section 4.1 as above.
\<close>

definition linkable :: "state \<Rightarrow> nat \<Rightarrow> nat \<Rightarrow> nat \<Rightarrow> bool" where
  "linkable s g parent child \<longleftrightarrow>
     p_graph (props s parent) = g \<and> p_graph (props s child) = g \<and>
     \<not> disposed (props s parent) \<and> \<not> disposed (props s child)"

definition link :: "state \<Rightarrow> nat \<Rightarrow> string \<Rightarrow> nat \<Rightarrow> nat \<Rightarrow> link outcome" where
  "link s g nm parent child =
     (if linkable s g parent child
      then (let l = \<lparr>lid = fresh s, lname = nm, lparent = parent, lchild = child\<rparr>
            in (Inr l, s\<lparr>links := links s @ [l], fresh := Suc (fresh s)\<rparr>))
      else (Inl InvalidOperation, s))"

text \<open>
  Modelled from the spec: \<open>PropertyGraph.disconnectParents\<close> is missing from the
  sources. Section 4.1: every link pointing at \<open>node\<close> whose parent satisfies the
  predicate is removed; no failure is described.
\<close>

definition disconnectParents :: "state \<Rightarrow> nat \<Rightarrow> (property \<Rightarrow> bool) \<Rightarrow> state" where
  "disconnectParents s node pred =
     disposeLinks
       (filter (\<lambda>l. lchild l = node \<and> pred (props s (lparent l))) (links s)) s"

text \<open>
  Modelled from the spec: the counterpart of \<open>disconnectParents\<close> for the outgoing
  links of a node, the first step of the disposal path of section 4.1.
\<close>

definition disconnectChildren :: "state \<Rightarrow> nat \<Rightarrow> state" where
  "disconnectChildren s node =
     disposeLinks (filter (\<lambda>l. lparent l = node) (links s)) s"

text \<open>
  Modelled from the spec: \<open>dispose\<close> is missing from the sources. Sections 4.1 and 4.2:
  every outgoing link of the node is removed, then every incoming link, then the node is
  marked disposed. It returns nothing.
\<close>

definition dispose :: "state \<Rightarrow> nat \<Rightarrow> state" where
  "dispose s this =
     (let s1 = disconnectChildren s this;
          s2 = disconnectParents s1 this (\<lambda>_. True)
      in s2\<lparr>props := (props s2)(this := (props s2 this)\<lparr>disposed := True\<rparr>)\<rparr>)"

text \<open>
  Modelled from the spec: \<open>listGraphParents\<close> is missing from the sources. Section 4.1:
  the distinct parents holding a link to the node, in link-creation order (the first
  link of a parent decides its place).
\<close>

definition listGraphParents :: "state \<Rightarrow> nat \<Rightarrow> nat list" where
  "listGraphParents s node =
     rev (remdups (rev (map lparent (filter (\<lambda>l. lchild l = node) (links s)))))"

text \<open>
  Modelled from the spec: \<open>addGraphChild\<close> is missing from the sources. It is called
  with the array \<open>this.extensions\<close> and the new link; section 4.3 lists the attached
  extensions in attachment order, so the link goes to the end of the array. The method
  returns \<open>this\<close> (the result type of \<open>setExtension\<close>, which returns its value).
\<close>

definition addGraphChild :: "state \<Rightarrow> nat \<Rightarrow> link \<Rightarrow> nat outcome" where
  "addGraphChild s this l =
     (Inr this,
      s\<lparr>props := (props s)(this := (props s this)\<lparr>extensions :=
                    extensions (props s this) @ [l]\<rparr>)\<rparr>)"

text \<open>
  Modelled from the spec: \<open>removeGraphChild\<close> is missing from the sources. It is called
  with the array \<open>this.extensions\<close> and a child; step 1 of \<open>setExtension\<close> in
  section 4.3 removes the existing link to that child, and the child is not disposed.
  The links of the array that point at the child are destroyed.
\<close>

definition removeGraphChild :: "state \<Rightarrow> nat \<Rightarrow> nat \<Rightarrow> state" where
  "removeGraphChild s this child =
     disposeLinks (filter (\<lambda>l. lchild l = child) (extensions (props s this))) s"

section \<open>The class Property\<close>

text \<open>\<open>getName\<close>, \<open>setName\<close>, \<open>getExtras\<close>, \<open>setExtras\<close>: plain fields.\<close>

definition getName :: "state \<Rightarrow> nat \<Rightarrow> string" where
  "getName s this = p_name (props s this)"

definition setName :: "state \<Rightarrow> nat \<Rightarrow> string \<Rightarrow> nat outcome" where
  "setName s this nm =
     (Inr this, s\<lparr>props := (props s)(this := (props s this)\<lparr>p_name := nm\<rparr>)\<rparr>)"

definition getExtras :: "state \<Rightarrow> nat \<Rightarrow> (string \<times> string) list" where
  "getExtras s this = p_extras (props s this)"

definition setExtras :: "state \<Rightarrow> nat \<Rightarrow> (string \<times> string) list \<Rightarrow> nat outcome" where
  "setExtras s this ex =
     (Inr this, s\<lparr>props := (props s)(this := (props s this)\<lparr>p_extras := ex\<rparr>)\<rparr>)"

text \<open>
  \<open>getExtension(ctor)\<close>: \<open>Array.prototype.find\<close> over \<open>this.extensions\<close> with the
  test \<open>link.getChild().extensionName === ctor.EXTENSION_NAME\<close>; the child of the link
  found, or null. The token \<open>ctor\<close> is used for its \<open>EXTENSION_NAME\<close> only, so it is
  that string here.
\<close>

definition getExtension :: "state \<Rightarrow> nat \<Rightarrow> string \<Rightarrow> nat option" where
  "getExtension s this ctor =
     (case List.find (\<lambda>l. extensionName (props s (lchild l)) = ctor)
             (extensions (props s this)) of
        Some l \<Rightarrow> Some (lchild l)
      | None \<Rightarrow> None)"

text \<open>
  \<open>setExtension(ctor, extensionProperty)\<close>: the previous extension is removed first;
  a null \<open>extensionProperty\<close> stops there and returns \<open>this\<close>; otherwise the link is
  created under the name \<open>extensionProperty.extensionName\<close> and added to the array.
  An exception of \<open>link\<close> leaves the store as it is at that moment.
\<close>

definition setExtension :: "state \<Rightarrow> nat \<Rightarrow> string \<Rightarrow> nat option \<Rightarrow> nat outcome" where
  "setExtension s this ctor extensionProperty =
     (let s1 = (case getExtension s this ctor of
                  Some prevExtension \<Rightarrow> removeGraphChild s this prevExtension
                | None \<Rightarrow> s)
      in case extensionProperty of
           None \<Rightarrow> (Inr this, s1)
         | Some e \<Rightarrow>
             (case link s1 (p_graph (props s1 this)) (extensionName (props s1 e)) this e of
                (Inl err, s2) \<Rightarrow> (Inl err, s2)
              | (Inr l, s2) \<Rightarrow> addGraphChild s2 this l))"

text \<open>\<open>listExtensions\<close>: the children of the links of \<open>this.extensions\<close>, in order.\<close>

definition listExtensions :: "state \<Rightarrow> nat \<Rightarrow> nat list" where
  "listExtensions s this = map lchild (extensions (props s this))"

text \<open>\<open>clone\<close>: the base implementation throws.\<close>

definition clone :: "state \<Rightarrow> nat \<Rightarrow> nat outcome" where
  "clone s this = (Inl NotImplemented, s)"

text \<open>
  \<open>detach\<close>: \<open>disconnectParents\<close> with the filter \<open>n.propertyType !== 'Root'\<close>, then
  \<open>this\<close> is returned.
\<close>

definition detach :: "state \<Rightarrow> nat \<Rightarrow> nat outcome" where
  "detach s this =
     (let s1 = disconnectParents s this (\<lambda>n. propertyType n \<noteq> ''Root'')
      in (Inr this, s1))"

text \<open>\<open>listParents\<close>: \<open>listGraphParents\<close>, cast.\<close>

definition listParents :: "state \<Rightarrow> nat \<Rightarrow> nat list" where
  "listParents s this = listGraphParents s this"

section \<open>Auxiliary notions\<close>

text \<open>
  The store after the first step of \<open>setExtension\<close> (the removal of the previous
  extension), and the link its last step creates.
\<close>

definition removePrevious :: "state \<Rightarrow> nat \<Rightarrow> string \<Rightarrow> state" where
  "removePrevious s this ctor =
     (case getExtension s this ctor of
        Some prevExtension \<Rightarrow> removeGraphChild s this prevExtension
      | None \<Rightarrow> s)"

definition newLink :: "state \<Rightarrow> nat \<Rightarrow> nat \<Rightarrow> link" where
  "newLink s this e =
     \<lparr>lid = fresh s, lname = extensionName (props s e), lparent = this, lchild = e\<rparr>"

text \<open>
  The invariant of section 4.3: the extension links of a host point at extensions with
  pairwise different identifiers, that is, at most one link for each identifier.
\<close>

definition uniqueExtensions :: "state \<Rightarrow> nat \<Rightarrow> bool" where
  "uniqueExtensions s this \<longleftrightarrow>
     distinct (map (\<lambda>l. extensionName (props s (lchild l))) (extensions (props s this)))"

text \<open>
  A node owns the links of its array \<open>extensions\<close>: each of them was created by
  \<open>setExtension\<close> with the node as parent.
\<close>

definition ownsExtensions :: "state \<Rightarrow> nat \<Rightarrow> bool" where
  "ownsExtensions s this \<longleftrightarrow> list_all (\<lambda>l. lparent l = this) (extensions (props s this))"

section \<open>Example stores\<close>

text \<open>
  The constructor of \<open>Property\<close>: it takes the graph and a name, the other fields
  start empty; the property type and the extension name come from the concrete class.
\<close>

definition construct :: "string \<Rightarrow> nat \<Rightarrow> string \<Rightarrow> string \<Rightarrow> property" where
  "construct ty g nm xn =
     \<lparr>propertyType = ty, p_graph = g, p_name = nm, p_extras = [], extensions = [],
      extensionName = xn, disposed = False\<rparr>"

text \<open>
  A document with a root, a material, a mesh, a texture and five extension properties;
  number 6 belongs to another graph. Nothing is linked yet.
\<close>

definition scene :: state where
  "scene =
     \<lparr>props = (\<lambda>_. construct ''Property'' 0 [] [])
        (0 := construct ''Root'' 0 [] [],
         1 := construct ''Material'' 0 ''mat'' [],
         2 := construct ''Mesh'' 0 ''mesh'' [],
         3 := construct ''Extension'' 0 [] ''KHR_a'',
         4 := construct ''Extension'' 0 [] ''KHR_a'',
         5 := construct ''Extension'' 0 [] ''KHR_b'',
         6 := construct ''Extension'' 1 [] ''KHR_b'',
         7 := construct ''Texture'' 0 ''tex'' [],
         8 := construct ''Extension'' 0 [] ''KHR_b''),
      links = [], fresh = 0\<rparr>"

text \<open>The material with the extension 5 (\<open>KHR_b\<close>) attached, then also 3 (\<open>KHR_a\<close>).\<close>

definition scene_b :: state where
  "scene_b = snd (setExtension scene 1 ''KHR_b'' (Some 5))"

definition scene_ba :: state where
  "scene_ba = snd (setExtension scene_b 1 ''KHR_a'' (Some 3))"

text \<open>
  The texture 7 referenced by the root, the material and the mesh, holding the
  extension 5 itself.
\<close>

definition scene_shared :: state where
  "scene_shared =
     snd (setExtension
       (snd (link (snd (link (snd (link scene 0 ''textures'' 0 7))
          0 ''baseColorTexture'' 1 7)) 0 ''emissiveTexture'' 2 7))
       7 ''KHR_b'' (Some 5))"

text \<open>
  The document with two more extension properties of the identifier \<open>KHR_b\<close>, and
  the mesh 2 after two accepted calls, the second with a token (\<open>KHR_a\<close>) that is
  not the identifier of the extension it attaches (8, \<open>KHR_b\<close>).
\<close>

definition scene_wide :: state where
  "scene_wide =
     scene\<lparr>props := (props scene)
        (9 := construct ''Extension'' 0 [] ''KHR_b'',
         10 := construct ''Extension'' 0 [] ''KHR_b'')\<rparr>"

definition scene_dup :: state where
  "scene_dup =
     snd (setExtension (snd (setExtension scene_wide 2 ''KHR_b'' (Some 5))) 2 ''KHR_a'' (Some 8))"

text \<open>
  The extension property 3 referenced by the root, attached to the material 1 and
  attached to itself.
\<close>

definition scene_self :: state where
  "scene_self =
     snd (setExtension
       (snd (setExtension (snd (link scene 0 ''extensions'' 0 3)) 1 ''KHR_a'' (Some 3)))
       3 ''KHR_a'' (Some 3))"

section \<open>Basic facts\<close>

lemma disposeLinks_simps:
  "links (disposeLinks ls s) = filter (\<lambda>l. l \<notin> set ls) (links s)"
  "fresh (disposeLinks ls s) = fresh s"
  "extensions (props (disposeLinks ls s) i) = filter (\<lambda>l. l \<notin> set ls) (extensions (props s i))"
  "extensionName (props (disposeLinks ls s) i) = extensionName (props s i)"
  "disposed (props (disposeLinks ls s) i) = disposed (props s i)"
  "propertyType (props (disposeLinks ls s) i) = propertyType (props s i)"
  "p_graph (props (disposeLinks ls s) i) = p_graph (props s i)"
  "p_name (props (disposeLinks ls s) i) = p_name (props s i)"
  "p_extras (props (disposeLinks ls s) i) = p_extras (props s i)"
  by (simp_all add: disposeLinks_def)

lemma filter_not_in_filter:
  "filter (\<lambda>l. l \<notin> set (filter P xs)) xs = filter (\<lambda>l. \<not> P l) xs"
  by (rule filter_cong) auto

lemma first_match_unique:
  assumes "i < length xs" "P (xs ! i)" "\<forall>j<i. \<not> P (xs ! j)"
    and "k < length xs" "P (xs ! k)" "\<forall>j<k. \<not> P (xs ! j)"
  shows "i = k"
proof (rule ccontr)
  assume "i \<noteq> k"
  then consider "i < k" | "k < i" by arith
  then show False using assms by cases auto
qed

lemma find_child_iff:
  "(case List.find P xs of Some l \<Rightarrow> Some (f l) | None \<Rightarrow> None) = Some c \<longleftrightarrow>
     (\<exists>i<length xs. f (xs ! i) = c \<and> P (xs ! i) \<and> (\<forall>j<i. \<not> P (xs ! j)))"
proof (cases "List.find P xs")
  case None
  then have "\<forall>x\<in>set xs. \<not> P x" by (simp add: find_None_iff)
  then have "\<forall>i<length xs. \<not> P (xs ! i)" by simp
  with None show ?thesis by auto
next
  case (Some l)
  then obtain i where i: "i < length xs" "P (xs ! i)" "l = xs ! i" "\<forall>j<i. \<not> P (xs ! j)"
    by (auto simp: find_Some_iff)
  show ?thesis
  proof
    assume "(case List.find P xs of Some l \<Rightarrow> Some (f l) | None \<Rightarrow> None) = Some c"
    with Some i show "\<exists>i<length xs. f (xs ! i) = c \<and> P (xs ! i) \<and> (\<forall>j<i. \<not> P (xs ! j))"
      by auto
  next
    assume "\<exists>i<length xs. f (xs ! i) = c \<and> P (xs ! i) \<and> (\<forall>j<i. \<not> P (xs ! j))"
    then obtain k where k: "k < length xs" "f (xs ! k) = c" "P (xs ! k)" "\<forall>j<k. \<not> P (xs ! j)"
      by auto
    from first_match_unique [OF i(1,2,4) k(1,3,4)] have "i = k" .
    with Some i k show "(case List.find P xs of Some l \<Rightarrow> Some (f l) | None \<Rightarrow> None) = Some c"
      by simp
  qed
qed

lemma removeGraphChild_simps:
  "links (removeGraphChild s h c) =
     filter (\<lambda>l. l \<notin> set (filter (\<lambda>l. lchild l = c) (extensions (props s h)))) (links s)"
  "fresh (removeGraphChild s h c) = fresh s"
  "extensionName (props (removeGraphChild s h c) i) = extensionName (props s i)"
  "disposed (props (removeGraphChild s h c) i) = disposed (props s i)"
  "propertyType (props (removeGraphChild s h c) i) = propertyType (props s i)"
  "p_graph (props (removeGraphChild s h c) i) = p_graph (props s i)"
  "p_name (props (removeGraphChild s h c) i) = p_name (props s i)"
  "p_extras (props (removeGraphChild s h c) i) = p_extras (props s i)"
  by (simp_all add: removeGraphChild_def disposeLinks_simps)

lemma removeGraphChild_extensions:
  "extensions (props (removeGraphChild s h c) h) =
     filter (\<lambda>l. lchild l \<noteq> c) (extensions (props s h))"
  unfolding removeGraphChild_def disposeLinks_simps by (rule filter_not_in_filter)

lemma removePrevious_fields:
  "fresh (removePrevious s h t) = fresh s"
  "extensionName (props (removePrevious s h t) i) = extensionName (props s i)"
  "disposed (props (removePrevious s h t) i) = disposed (props s i)"
  "propertyType (props (removePrevious s h t) i) = propertyType (props s i)"
  "p_graph (props (removePrevious s h t) i) = p_graph (props s i)"
  "p_name (props (removePrevious s h t) i) = p_name (props s i)"
  "p_extras (props (removePrevious s h t) i) = p_extras (props s i)"
  by (simp_all add: removePrevious_def removeGraphChild_simps split: option.splits)

lemma linkable_removePrevious:
  "linkable (removePrevious s h t) g a b = linkable s g a b"
  by (simp add: linkable_def removePrevious_fields)

lemma getExtension_None_iff:
  "getExtension s h t = None \<longleftrightarrow>
     (\<forall>l\<in>set (extensions (props s h)). extensionName (props s (lchild l)) \<noteq> t)"
proof (cases "List.find (\<lambda>l. extensionName (props s (lchild l)) = t) (extensions (props s h))")
  case None
  then have "\<forall>l\<in>set (extensions (props s h)). extensionName (props s (lchild l)) \<noteq> t"
    by (simp add: find_None_iff)
  moreover from None have "getExtension s h t = None"
    unfolding getExtension_def by simp
  ultimately show ?thesis by simp
next
  case (Some l)
  then have "l \<in> set (extensions (props s h))" "extensionName (props s (lchild l)) = t"
    by (auto simp: find_Some_iff)
  with Some show ?thesis unfolding getExtension_def by auto
qed

lemma getExtension_SomeD:
  assumes "getExtension s h t = Some c"
  shows "\<exists>l\<in>set (extensions (props s h)). lchild l = c \<and> extensionName (props s c) = t"
proof -
  from assms obtain l where
    "List.find (\<lambda>l. extensionName (props s (lchild l)) = t) (extensions (props s h)) = Some l"
    "c = lchild l"
    unfolding getExtension_def by (auto split: option.splits)
  then show ?thesis by (auto simp: find_Some_iff)
qed

lemma removePrevious_extensions:
  "extensions (props (removePrevious s h t) h) =
     (case getExtension s h t of
        Some c \<Rightarrow> filter (\<lambda>l. lchild l \<noteq> c) (extensions (props s h))
      | None \<Rightarrow> extensions (props s h))"
  by (simp add: removePrevious_def removeGraphChild_extensions split: option.splits)

lemma removePrevious_unique:
  assumes "uniqueExtensions s h"
  shows "extensions (props (removePrevious s h t) h) =
           filter (\<lambda>l. extensionName (props s (lchild l)) \<noteq> t) (extensions (props s h))"
proof (cases "getExtension s h t")
  case None
  then have "\<forall>l\<in>set (extensions (props s h)). extensionName (props s (lchild l)) \<noteq> t"
    by (simp add: getExtension_None_iff)
  then have "filter (\<lambda>l. extensionName (props s (lchild l)) \<noteq> t) (extensions (props s h))
               = extensions (props s h)"
    by (simp add: filter_id_conv)
  with None show ?thesis by (simp add: removePrevious_extensions)
next
  case (Some c)
  from getExtension_SomeD [OF Some] obtain l0 where
    l0: "l0 \<in> set (extensions (props s h))" "lchild l0 = c" "extensionName (props s c) = t"
    by blast
  from assms have inj: "inj_on (\<lambda>l. extensionName (props s (lchild l))) (set (extensions (props s h)))"
    unfolding uniqueExtensions_def by (simp add: distinct_map)
  have "filter (\<lambda>l. lchild l \<noteq> c) (extensions (props s h)) =
        filter (\<lambda>l. extensionName (props s (lchild l)) \<noteq> t) (extensions (props s h))"
  proof (rule filter_cong [OF refl])
    fix l assume l: "l \<in> set (extensions (props s h))"
    show "(lchild l \<noteq> c) = (extensionName (props s (lchild l)) \<noteq> t)"
    proof
      assume "lchild l \<noteq> c"
      with l0 have "l \<noteq> l0" by auto
      with inj l l0(1) have "extensionName (props s (lchild l)) \<noteq> extensionName (props s (lchild l0))"
        by (auto dest: inj_onD)
      with l0 show "extensionName (props s (lchild l)) \<noteq> t" by simp
    next
      assume "extensionName (props s (lchild l)) \<noteq> t"
      with l0 show "lchild l \<noteq> c" by auto
    qed
  qed
  with Some show ?thesis by (simp add: removePrevious_extensions)
qed

lemma setExtension_null:
  "setExtension s h t None = (Inr h, removePrevious s h t)"
  by (simp add: setExtension_def removePrevious_def)

lemma setExtension_rejected:
  assumes "\<not> linkable s (p_graph (props s h)) h e"
  shows "setExtension s h t (Some e) = (Inl InvalidOperation, removePrevious s h t)"
proof -
  have "\<not> linkable (removePrevious s h t) (p_graph (props (removePrevious s h t) h)) h e"
    using assms by (simp add: linkable_removePrevious removePrevious_fields)
  then show ?thesis
    unfolding setExtension_def removePrevious_def [symmetric]
    by (simp add: link_def)
qed

lemma setExtension_linked:
  assumes "linkable s (p_graph (props s h)) h e"
  shows "setExtension s h t (Some e) =
    (Inr h,
     (removePrevious s h t)
       \<lparr>props := (props (removePrevious s h t))
          (h := (props (removePrevious s h t) h)
             \<lparr>extensions := extensions (props (removePrevious s h t) h) @ [newLink s h e]\<rparr>),
        links := links (removePrevious s h t) @ [newLink s h e],
        fresh := Suc (fresh s)\<rparr>)"
proof -
  have "linkable (removePrevious s h t) (p_graph (props (removePrevious s h t) h)) h e"
    using assms by (simp add: linkable_removePrevious removePrevious_fields)
  then show ?thesis
    unfolding setExtension_def removePrevious_def [symmetric]
    by (simp add: link_def addGraphChild_def Let_def newLink_def removePrevious_fields)
qed

lemma setExtension_fields:
  "extensionName (props (snd (setExtension s h t x)) i) = extensionName (props s i)"
  "disposed (props (snd (setExtension s h t x)) i) = disposed (props s i)"
  "propertyType (props (snd (setExtension s h t x)) i) = propertyType (props s i)"
  "p_graph (props (snd (setExtension s h t x)) i) = p_graph (props s i)"
proof -
  have "extensionName (props (snd (setExtension s h t x)) i) = extensionName (props s i) \<and>
        disposed (props (snd (setExtension s h t x)) i) = disposed (props s i) \<and>
        propertyType (props (snd (setExtension s h t x)) i) = propertyType (props s i) \<and>
        p_graph (props (snd (setExtension s h t x)) i) = p_graph (props s i)"
  proof (cases x)
    case None
    then show ?thesis by (simp add: setExtension_null removePrevious_fields)
  next
    case (Some e)
    show ?thesis
    proof (cases "linkable s (p_graph (props s h)) h e")
      case True
      with Some show ?thesis by (simp add: setExtension_linked removePrevious_fields)
    next
      case False
      with Some show ?thesis by (simp add: setExtension_rejected removePrevious_fields)
    qed
  qed
  then show
    "extensionName (props (snd (setExtension s h t x)) i) = extensionName (props s i)"
    "disposed (props (snd (setExtension s h t x)) i) = disposed (props s i)"
    "propertyType (props (snd (setExtension s h t x)) i) = propertyType (props s i)"
    "p_graph (props (snd (setExtension s h t x)) i) = p_graph (props s i)"
    by simp_all
qed

lemma setExtension_linked_extensions:
  assumes "linkable s (p_graph (props s h)) h e"
  shows "extensions (props (snd (setExtension s h t (Some e))) h) =
           extensions (props (removePrevious s h t) h) @ [newLink s h e]"
    and "links (snd (setExtension s h t (Some e))) = links (removePrevious s h t) @ [newLink s h e]"
    and "fresh (snd (setExtension s h t (Some e))) = Suc (fresh s)"
    and "fst (setExtension s h t (Some e)) = Inr h"
  using assms by (simp_all add: setExtension_linked)

lemma linkable_setExtension:
  "linkable (snd (setExtension s h t x)) g a b = linkable s g a b"
  by (simp add: linkable_def setExtension_fields)

lemma distinct_filter_snoc:
  assumes "distinct (map f xs)"
  shows "distinct (map f (filter (\<lambda>x. f x \<noteq> a) xs @ [y])) \<longleftrightarrow> (f y = a \<or> f y \<notin> f ` set xs)"
  using assms by (auto simp: distinct_map_filter)

lemma uniqueExtensions_removePrevious:
  assumes "uniqueExtensions s h"
  shows "uniqueExtensions (removePrevious s h t) h"
  using assms removePrevious_unique [OF assms, of t]
  by (simp add: uniqueExtensions_def removePrevious_fields distinct_map_filter)

lemma uniqueExtensions_linked_iff:
  assumes "uniqueExtensions s h" and "linkable s (p_graph (props s h)) h e"
  shows "uniqueExtensions (snd (setExtension s h t (Some e))) h \<longleftrightarrow>
           (t = extensionName (props s e) \<or>
            extensionName (props s e) \<notin>
              (\<lambda>l. extensionName (props s (lchild l))) ` set (extensions (props s h)))"
proof -
  have d: "distinct (map (\<lambda>l. extensionName (props s (lchild l))) (extensions (props s h)))"
    using assms(1) by (simp add: uniqueExtensions_def)
  have "uniqueExtensions (snd (setExtension s h t (Some e))) h \<longleftrightarrow>
        distinct (map (\<lambda>l. extensionName (props s (lchild l)))
          (filter (\<lambda>l. extensionName (props s (lchild l)) \<noteq> t) (extensions (props s h))
             @ [newLink s h e]))"
    by (simp only: uniqueExtensions_def setExtension_fields
          setExtension_linked_extensions(1) [OF assms(2)] removePrevious_unique [OF assms(1)])
  also have "\<dots> \<longleftrightarrow> (extensionName (props s (lchild (newLink s h e))) = t \<or>
      extensionName (props s (lchild (newLink s h e))) \<notin>
        (\<lambda>l. extensionName (props s (lchild l))) ` set (extensions (props s h)))"
    by (rule distinct_filter_snoc [OF d])
  finally show ?thesis by (auto simp: newLink_def)
qed

lemma setExtension_preserves_unique:
  assumes "uniqueExtensions s h"
    and "\<And>e. x = Some e \<Longrightarrow> extensionName (props s e) = t"
  shows "uniqueExtensions (snd (setExtension s h t x)) h"
proof (cases x)
  case None
  with assms(1) show ?thesis
    by (simp add: setExtension_null uniqueExtensions_removePrevious)
next
  case (Some e)
  show ?thesis
  proof (cases "linkable s (p_graph (props s h)) h e")
    case True
    with assms Some show ?thesis by (simp add: uniqueExtensions_linked_iff)
  next
    case False
    with assms(1) Some show ?thesis
      by (simp add: setExtension_rejected uniqueExtensions_removePrevious)
  qed
qed

lemma unique_at_most_one:
  assumes "distinct (map f xs)"
  shows "length (filter (\<lambda>x. f x = a) xs) \<le> 1"
  using assms
proof (induction xs)
  case Nil
  then show ?case by simp
next
  case (Cons x xs)
  show ?case
  proof (cases "f x = a")
    case True
    with Cons.prems have "\<forall>y\<in>set xs. f y \<noteq> a" by (auto simp: image_iff)
    then have "filter (\<lambda>x. f x = a) xs = []" by (simp add: filter_empty_conv)
    with True show ?thesis by simp
  next
    case False
    with Cons show ?thesis by simp
  qed
qed

lemma uniqueExtensions_at_most_one:
  "uniqueExtensions s h \<Longrightarrow>
     length (filter (\<lambda>l. extensionName (props s (lchild l)) = i) (extensions (props s h))) \<le> 1"
  unfolding uniqueExtensions_def by (rule unique_at_most_one)

lemma set_listGraphParents:
  "set (listGraphParents s n) = lparent ` {l \<in> set (links s). lchild l = n}"
  by (auto simp: listGraphParents_def)

lemma find_after_filtered:
  assumes "P y"
  shows "List.find P (filter (\<lambda>x. \<not> P x) xs @ [y]) = Some y"
  using assms by (induction xs) auto

lemma getExtension_after_replace:
  assumes "uniqueExtensions s h" and "linkable s (p_graph (props s h)) h e"
    and "extensionName (props s e) = t"
  shows "getExtension (snd (setExtension s h t (Some e))) h t = Some e"
proof -
  have "extensions (props (snd (setExtension s h t (Some e))) h) =
          filter (\<lambda>l. \<not> extensionName (props s (lchild l)) = t) (extensions (props s h))
            @ [newLink s h e]"
    by (simp add: setExtension_linked_extensions(1) [OF assms(2)] removePrevious_unique [OF assms(1)])
  moreover have "extensionName (props s (lchild (newLink s h e))) = t"
    using assms(3) by (simp add: newLink_def)
  ultimately show ?thesis
    unfolding getExtension_def
    by (simp add: setExtension_fields find_after_filtered newLink_def)
qed


lemma detach_eq:
  "detach s n = (Inr n, disconnectParents s n (\<lambda>p. propertyType p \<noteq> ''Root''))"
  by (simp add: detach_def)

lemma links_disconnectParents:
  "links (disconnectParents s n pred) =
     filter (\<lambda>l. \<not> (lchild l = n \<and> pred (props s (lparent l)))) (links s)"
  unfolding disconnectParents_def disposeLinks_simps by (rule filter_not_in_filter)


lemma listParents_detach:
  "listParents (snd (detach s n)) n =
     filter (\<lambda>p. propertyType (props s p) = ''Root'') (listParents s n)"
proof -
  have "filter (\<lambda>l. lchild l = n)
          (filter (\<lambda>l. \<not> (lchild l = n \<and> propertyType (props s (lparent l)) \<noteq> ''Root'')) (links s))
        = filter (\<lambda>l. propertyType (props s (lparent l)) = ''Root'')
            (filter (\<lambda>l. lchild l = n) (links s))"
    by (induction "links s") (auto intro: filter_cong)
  then show ?thesis
    by (simp add: detach_eq listParents_def listGraphParents_def links_disconnectParents
          rev_filter [symmetric] remdups_filter [symmetric] filter_map comp_def)
qed

lemma distinct_listParents: "distinct (listParents s n)"
  by (simp add: listParents_def listGraphParents_def)

lemma distinct_set_singleton:
  assumes "distinct xs" and "set xs = {x}"
  shows "xs = [x]"
proof -
  from assms have "length xs = 1" by (simp add: distinct_card [symmetric])
  then obtain y where "xs = [y]" by (cases xs) auto
  with assms(2) show ?thesis by simp
qed



lemmas run =
  construct_def setExtension_def getExtension_def removeGraphChild_def disposeLinks_def
  link_def linkable_def addGraphChild_def disconnectParents_def disconnectChildren_def
  dispose_def detach_def listParents_def listGraphParents_def listExtensions_def
  uniqueExtensions_def ownsExtensions_def Let_def

lemma scene_b_eq:
  "scene_b = scene
     \<lparr>props := (props scene)(1 := (construct ''Material'' 0 ''mat'' [])
        \<lparr>extensions := [\<lparr>lid = 0, lname = ''KHR_b'', lparent = 1, lchild = 5\<rparr>]\<rparr>),
      links := [\<lparr>lid = 0, lname = ''KHR_b'', lparent = 1, lchild = 5\<rparr>], fresh := 1\<rparr>"
  by (simp add: scene_b_def scene_def run)

lemma scene_b_facts:
  "extensions (props scene_b 1) = [\<lparr>lid = 0, lname = ''KHR_b'', lparent = 1, lchild = 5\<rparr>]"
  "links scene_b = [\<lparr>lid = 0, lname = ''KHR_b'', lparent = 1, lchild = 5\<rparr>]"
  "fresh scene_b = 1"
  by (simp_all add: scene_b_def scene_def run)

lemma scene_ba_facts:
  "extensions (props scene_ba 1) = [\<lparr>lid = 0, lname = ''KHR_b'', lparent = 1, lchild = 5\<rparr>,
      \<lparr>lid = 1, lname = ''KHR_a'', lparent = 1, lchild = 3\<rparr>]"
  by (simp_all add: scene_ba_def scene_b_def scene_def run)

lemma scene_shared_facts:
  "links scene_shared =
     [\<lparr>lid = 0, lname = ''textures'', lparent = 0, lchild = 7\<rparr>,
      \<lparr>lid = 1, lname = ''baseColorTexture'', lparent = 1, lchild = 7\<rparr>,
      \<lparr>lid = 2, lname = ''emissiveTexture'', lparent = 2, lchild = 7\<rparr>,
      \<lparr>lid = 3, lname = ''KHR_b'', lparent = 7, lchild = 5\<rparr>]"
  "extensions (props scene_shared 7) = [\<lparr>lid = 3, lname = ''KHR_b'', lparent = 7, lchild = 5\<rparr>]"
  "listParents scene_shared 7 = [0, 1, 2]"
  "listParents scene_shared 5 = [7]"
  by (simp_all add: scene_shared_def scene_def run)

lemma accepted_extensions:
  assumes "linkable s (p_graph (props s h)) h e"
  shows "extensions (props (snd (setExtension s h t (Some e))) h) =
           (case getExtension s h t of
              Some c \<Rightarrow> filter (\<lambda>l. lchild l \<noteq> c) (extensions (props s h))
            | None \<Rightarrow> extensions (props s h)) @ [newLink s h e]"
  by (simp add: setExtension_linked_extensions(1) [OF assms] removePrevious_extensions)

lemma scene_wide_facts:
  "extensions (props scene_wide 2) = []"
  "fresh scene_wide = 0"
  "extensionName (props scene_wide 5) = ''KHR_b''"
  "extensionName (props scene_wide 8) = ''KHR_b''"
  "extensionName (props scene_wide 9) = ''KHR_b''"
  "extensionName (props scene_wide 10) = ''KHR_b''"
  "linkable scene_wide (p_graph (props scene_wide 2)) 2 5"
  "linkable scene_wide (p_graph (props scene_wide 2)) 2 8"
  "linkable scene_wide (p_graph (props scene_wide 2)) 2 9"
  "linkable scene_wide (p_graph (props scene_wide 2)) 2 10"
  by (simp_all add: scene_wide_def scene_def construct_def linkable_def)

lemma scene_wide_5:
  "fst (setExtension scene_wide 2 ''KHR_b'' (Some 5)) = Inr 2"
  "extensions (props (snd (setExtension scene_wide 2 ''KHR_b'' (Some 5))) 2) =
     [\<lparr>lid = 0, lname = ''KHR_b'', lparent = 2, lchild = 5\<rparr>]"
  "fresh (snd (setExtension scene_wide 2 ''KHR_b'' (Some 5))) = 1"
  by (simp_all add: accepted_extensions setExtension_linked_extensions scene_wide_facts
        getExtension_def newLink_def)

lemma scene_dup_facts:
  "fst (setExtension (snd (setExtension scene_wide 2 ''KHR_b'' (Some 5))) 2 ''KHR_a'' (Some 8)) = Inr 2"
  "extensions (props scene_dup 2) =
     [\<lparr>lid = 0, lname = ''KHR_b'', lparent = 2, lchild = 5\<rparr>,
      \<lparr>lid = 1, lname = ''KHR_b'', lparent = 2, lchild = 8\<rparr>]"
  "fresh scene_dup = 2"
  "extensionName (props scene_dup i) = extensionName (props scene_wide i)"
  "linkable scene_dup (p_graph (props scene_dup 2)) 2 e =
     linkable scene_wide (p_graph (props scene_wide 2)) 2 e"
  by (simp_all add: scene_dup_def accepted_extensions setExtension_linked_extensions
        linkable_setExtension setExtension_fields scene_wide_facts scene_wide_5
        getExtension_def newLink_def)

lemma scene_dup_9:
  "fst (setExtension scene_dup 2 ''KHR_b'' (Some 9)) = Inr 2"
  "extensions (props (snd (setExtension scene_dup 2 ''KHR_b'' (Some 9))) 2) =
     [\<lparr>lid = 1, lname = ''KHR_b'', lparent = 2, lchild = 8\<rparr>,
      \<lparr>lid = 2, lname = ''KHR_b'', lparent = 2, lchild = 9\<rparr>]"
  by (simp_all add: accepted_extensions setExtension_linked_extensions
        scene_dup_facts scene_wide_facts getExtension_def newLink_def)

lemma scene_dup_10:
  "fst (setExtension (snd (setExtension scene_dup 2 ''KHR_b'' (Some 9))) 2 ''KHR_b'' (Some 10)) = Inr 2"
  "extensions (props
     (snd (setExtension (snd (setExtension scene_dup 2 ''KHR_b'' (Some 9))) 2 ''KHR_b'' (Some 10))) 2) =
     [\<lparr>lid = 2, lname = ''KHR_b'', lparent = 2, lchild = 9\<rparr>,
      \<lparr>lid = 3, lname = ''KHR_b'', lparent = 2, lchild = 10\<rparr>]"
  by (simp_all add: accepted_extensions setExtension_linked_extensions
        linkable_setExtension setExtension_fields
        scene_dup_9 scene_dup_facts scene_wide_facts getExtension_def newLink_def)

section \<open>The claims\<close>

subsection \<open>C1: one extension link for each identifier\<close>

text \<open>
  Claim C1, as amended. On a host whose extension links have pairwise different
  identifiers (every newly constructed host is one), each call of \<open>setExtension\<close>
  whose token is the identifier of the extension it attaches, or whose extension is
  null, leaves at most one link for each identifier. Attaching \<open>e1\<close> and then
  \<open>e2\<close>, two extension properties of the identifier \<open>ident\<close>, under that
  identifier returns the host both times and leaves exactly one link for \<open>ident\<close>,
  the second one created, pointing at \<open>e2\<close>; \<open>e1\<close> is no longer among the
  extensions of the host, the link the first call created has left the registry, the
  registry holds no link to \<open>e1\<close> that was not there before the two calls, and
  \<open>e1\<close> is not disposed.
\<close>

theorem setExtension_twice_one_link:
  assumes "uniqueExtensions s h"
    and "linkable s (p_graph (props s h)) h e1"
    and "linkable s (p_graph (props s h)) h e2"
    and "extensionName (props s e1) = ident"
    and "extensionName (props s e2) = ident"
    and "e1 \<noteq> e2"
  shows "(\<forall>t x. (\<forall>e. x = Some e \<longrightarrow> extensionName (props s e) = t) \<longrightarrow>
                 uniqueExtensions (snd (setExtension s h t x)) h) \<and>
         (let r1 = setExtension s h ident (Some e1);
              r2 = setExtension (snd r1) h ident (Some e2);
              s2 = snd r2
          in fst r1 = Inr h \<and> fst r2 = Inr h \<and>
             uniqueExtensions (snd r1) h \<and> uniqueExtensions s2 h \<and>
             (\<forall>i. length (filter (\<lambda>l. extensionName (props s2 (lchild l)) = i)
                                (extensions (props s2 h))) \<le> 1) \<and>
             filter (\<lambda>l. extensionName (props s2 (lchild l)) = ident) (extensions (props s2 h)) =
               [\<lparr>lid = Suc (fresh s), lname = ident, lparent = h, lchild = e2\<rparr>] \<and>
             getExtension s2 h ident = Some e2 \<and>
             e1 \<notin> set (listExtensions s2 h) \<and>
             \<lparr>lid = fresh s, lname = ident, lparent = h, lchild = e1\<rparr> \<notin> set (links s2) \<and>
             (\<forall>l \<in> set (links s2). lchild l = e1 \<longrightarrow> l \<in> set (links s)) \<and>
             \<not> disposed (props s2 e1))"
proof -
  define s1 where "s1 = snd (setExtension s h ident (Some e1))"
  define s2 where "s2 = snd (setExtension s1 h ident (Some e2))"
  define keep where "keep = filter (\<lambda>l. extensionName (props s (lchild l)) \<noteq> ident) (extensions (props s h))"
  define n1 where "n1 = newLink s h e1"
  define n2 where "n2 = \<lparr>lid = Suc (fresh s), lname = ident, lparent = h, lchild = e2\<rparr>"
  have nm1: "\<And>i. extensionName (props s1 i) = extensionName (props s i)"
    and nm2: "\<And>i. extensionName (props s2 i) = extensionName (props s i)"
    by (simp_all add: s1_def s2_def setExtension_fields)
  have l1: "linkable s1 (p_graph (props s1 h)) h e2"
    using assms(3) by (simp add: s1_def linkable_setExtension setExtension_fields)
  have r1: "fst (setExtension s h ident (Some e1)) = Inr h"
    by (rule setExtension_linked_extensions(4) [OF assms(2)])
  have r2: "fst (setExtension s1 h ident (Some e2)) = Inr h"
    by (rule setExtension_linked_extensions(4) [OF l1])
  have u1: "uniqueExtensions s1 h"
    unfolding s1_def using assms(1,4) by (intro setExtension_preserves_unique) auto
  have u2: "uniqueExtensions s2 h"
    unfolding s2_def using u1 assms(5) nm1 by (intro setExtension_preserves_unique) auto
  have x1: "extensions (props s1 h) = keep @ [n1]"
    unfolding s1_def keep_def n1_def
    by (simp add: setExtension_linked_extensions(1) [OF assms(2)] removePrevious_unique [OF assms(1)])
  have k: "filter (\<lambda>l. extensionName (props s (lchild l)) \<noteq> ident) keep = keep"
    "filter (\<lambda>l. extensionName (props s (lchild l)) = ident) keep = []"
    by (simp_all add: keep_def filter_empty_conv)
  have c1: "lchild n1 = e1" by (simp add: n1_def newLink_def)
  have f1: "fresh s1 = Suc (fresh s)"
    unfolding s1_def by (rule setExtension_linked_extensions(3) [OF assms(2)])
  have nl2: "newLink s1 h e2 = n2"
    using assms(5) by (simp add: newLink_def n2_def f1 nm1)
  have x2: "extensions (props s2 h) = keep @ [n2]"
    unfolding s2_def
    using assms(4) k
    by (simp add: setExtension_linked_extensions(1) [OF l1] removePrevious_unique [OF u1]
          x1 nm1 c1 nl2)
  have one: "filter (\<lambda>l. extensionName (props s2 (lchild l)) = ident) (extensions (props s2 h)) = [n2]"
    using assms(5) k by (simp add: x2 nm2 n2_def)
  have g2: "getExtension s2 h ident = Some e2"
    unfolding s2_def using u1 l1 assms(5) nm1 by (intro getExtension_after_replace) auto
  have notin: "e1 \<notin> set (listExtensions s2 h)"
    using assms(4,6) by (auto simp: listExtensions_def x2 keep_def n2_def)
  have g1: "getExtension s1 h ident = Some e1"
    unfolding s1_def using assms(1,2,4) by (intro getExtension_after_replace) auto
  have links1: "links s1 = links (removePrevious s h ident) @ [n1]"
    unfolding s1_def n1_def by (rule setExtension_linked_extensions(2) [OF assms(2)])
  have sub: "set (links (removePrevious s h ident)) \<subseteq> set (links s)"
    by (auto simp: removePrevious_def removeGraphChild_simps split: option.splits)
  have links2: "links s2 = filter (\<lambda>l. l \<notin> set (filter (\<lambda>l. lchild l = e1) (extensions (props s1 h))))
                    (links s1) @ [n2]"
    unfolding s2_def
    by (simp add: setExtension_linked_extensions(2) [OF l1] removePrevious_def g1
          removeGraphChild_simps nl2)
  have "n1 \<in> set (filter (\<lambda>l. lchild l = e1) (extensions (props s1 h)))"
    by (simp add: x1 c1)
  then have in2: "set (links s2) \<subseteq> (set (links s) - {n1}) \<union> {n2}"
    using sub by (auto simp: links2 links1)
  have c2: "lchild n2 \<noteq> e1" using assms(6) by (simp add: n2_def)
  have n1_eq: "n1 = \<lparr>lid = fresh s, lname = ident, lparent = h, lchild = e1\<rparr>"
    using assms(4) by (simp add: n1_def newLink_def)
  have "n1 \<noteq> n2" by (simp add: n1_eq n2_def)
  with in2 have gone: "\<lparr>lid = fresh s, lname = ident, lparent = h, lchild = e1\<rparr> \<notin> set (links s2)"
    unfolding n1_eq by blast
  from in2 c2 have old: "\<forall>l \<in> set (links s2). lchild l = e1 \<longrightarrow> l \<in> set (links s)"
    by blast
  have live: "\<not> disposed (props s2 e1)"
    using assms(2) by (simp add: s2_def s1_def setExtension_fields linkable_def)
  have most: "\<forall>i. length (filter (\<lambda>l. extensionName (props s2 (lchild l)) = i)
                                (extensions (props s2 h))) \<le> 1"
    using uniqueExtensions_at_most_one [OF u2] by blast
  have inv: "\<forall>t x. (\<forall>e. x = Some e \<longrightarrow> extensionName (props s e) = t) \<longrightarrow>
                 uniqueExtensions (snd (setExtension s h t x)) h"
    using setExtension_preserves_unique [OF assms(1)] by blast
  show ?thesis
    unfolding Let_def s1_def [symmetric] s2_def [symmetric] n2_def [symmetric]
    using inv r1 r2 u1 u2 most one g2 notin gone old live by simp
qed

theorem setExtension_twice_one_link_witness:
  "uniqueExtensions scene_b 1 \<and>
   linkable scene_b (p_graph (props scene_b 1)) 1 3 \<and>
   linkable scene_b (p_graph (props scene_b 1)) 1 4 \<and>
   extensionName (props scene_b 3) = ''KHR_a'' \<and>
   extensionName (props scene_b 4) = ''KHR_a'' \<and>
   (3::nat) \<noteq> 4 \<and>
   getExtension
     (snd (setExtension (snd (setExtension scene_b 1 ''KHR_a'' (Some 3))) 1 ''KHR_a'' (Some 4)))
     1 ''KHR_a'' = Some 4 \<and>
   3 \<notin> set (listExtensions
     (snd (setExtension (snd (setExtension scene_b 1 ''KHR_a'' (Some 3))) 1 ''KHR_a'' (Some 4)))
     1) \<and>
   \<lparr>lid = fresh scene_b, lname = ''KHR_a'', lparent = 1, lchild = 3\<rparr> \<notin> set (links
     (snd (setExtension (snd (setExtension scene_b 1 ''KHR_a'' (Some 3))) 1 ''KHR_a'' (Some 4)))) \<and>
   \<not> disposed (props
     (snd (setExtension (snd (setExtension scene_b 1 ''KHR_a'' (Some 3))) 1 ''KHR_a'' (Some 4)))
     3)"
proof -
  have a: "uniqueExtensions scene_b 1"
    by (simp add: scene_b_eq scene_def run)
  have b: "linkable scene_b (p_graph (props scene_b 1)) 1 3"
    by (simp add: scene_b_eq scene_def run)
  have c: "linkable scene_b (p_graph (props scene_b 1)) 1 4"
    by (simp add: scene_b_eq scene_def run)
  have d: "extensionName (props scene_b 3) = ''KHR_a''"
    by (simp add: scene_b_eq scene_def run)
  have e: "extensionName (props scene_b 4) = ''KHR_a''"
    by (simp add: scene_b_eq scene_def run)
  have f: "(3::nat) \<noteq> 4" by simp
  from setExtension_twice_one_link [OF a b c d e f]
  have "getExtension
     (snd (setExtension (snd (setExtension scene_b 1 ''KHR_a'' (Some 3))) 1 ''KHR_a'' (Some 4)))
     1 ''KHR_a'' = Some 4 \<and>
   3 \<notin> set (listExtensions
     (snd (setExtension (snd (setExtension scene_b 1 ''KHR_a'' (Some 3))) 1 ''KHR_a'' (Some 4)))
     1) \<and>
   \<lparr>lid = fresh scene_b, lname = ''KHR_a'', lparent = 1, lchild = 3\<rparr> \<notin> set (links
     (snd (setExtension (snd (setExtension scene_b 1 ''KHR_a'' (Some 3))) 1 ''KHR_a'' (Some 4)))) \<and>
   \<not> disposed (props
     (snd (setExtension (snd (setExtension scene_b 1 ''KHR_a'' (Some 3))) 1 ''KHR_a'' (Some 4)))
     3)"
    by (simp add: Let_def)
  with a b c d e f show ?thesis by blast
qed

text \<open>
  The claim as stated holds of every host. The mesh 2 of \<open>scene_dup\<close> has been
  reached by two accepted calls and holds two links for \<open>KHR_b\<close>, to 5 and to 8.
  Attaching 9 and then 10, both of the identifier \<open>KHR_b\<close>, under the token
  \<open>KHR_b\<close> removes 5 and then 8: the host ends with the extensions \<open>[9, 10]\<close>,
  two links for the identifier, and the first value is still attached.
\<close>

theorem setExtension_one_link_counterexample:
  "fst (setExtension scene_wide 2 ''KHR_b'' (Some 5)) = Inr 2 \<and>
   fst (setExtension (snd (setExtension scene_wide 2 ''KHR_b'' (Some 5))) 2 ''KHR_a'' (Some 8)) = Inr 2 \<and>
   listExtensions scene_dup 2 = [5, 8] \<and>
   extensionName (props scene_dup 5) = ''KHR_b'' \<and>
   extensionName (props scene_dup 8) = ''KHR_b'' \<and>
   extensionName (props scene_dup 9) = ''KHR_b'' \<and>
   extensionName (props scene_dup 10) = ''KHR_b'' \<and>
   fst (setExtension scene_dup 2 ''KHR_b'' (Some 9)) = Inr 2 \<and>
   fst (setExtension (snd (setExtension scene_dup 2 ''KHR_b'' (Some 9))) 2 ''KHR_b'' (Some 10)) = Inr 2 \<and>
   listExtensions
     (snd (setExtension (snd (setExtension scene_dup 2 ''KHR_b'' (Some 9))) 2 ''KHR_b'' (Some 10)))
     2 = [9, 10] \<and>
   length (filter
     (\<lambda>l. extensionName (props
        (snd (setExtension (snd (setExtension scene_dup 2 ''KHR_b'' (Some 9))) 2 ''KHR_b'' (Some 10)))
        (lchild l)) = ''KHR_b'')
     (extensions (props
        (snd (setExtension (snd (setExtension scene_dup 2 ''KHR_b'' (Some 9))) 2 ''KHR_b'' (Some 10)))
        2))) = 2"
  by (simp add: listExtensions_def setExtension_fields scene_wide_5 scene_dup_facts
        scene_dup_9 scene_dup_10 scene_wide_facts)

subsection \<open>C2: detach keeps the link of the root\<close>

text \<open>
  Claim C2, as amended. For a node \<open>n\<close> that is not disposed, whose parents are
  \<open>p1\<close>, \<open>p2\<close> and \<open>root\<close> (the first two of a property type other than
  Root and other than \<open>n\<close> itself, the last of type Root), and whose array of
  extension links holds links of which \<open>n\<close> is the parent, after \<open>n.detach()\<close> the
  parents of \<open>n\<close> are exactly \<open>[root]\<close>, \<open>n\<close> is still not disposed, and the
  outgoing links of \<open>n\<close> are unchanged: its array of extension links and the links of
  the registry whose parent is \<open>n\<close>.
\<close>

theorem detach_keeps_root_only:
  assumes "\<not> disposed (props s n)"
    and "set (listParents s n) = {p1, p2, root}"
    and "propertyType (props s p1) \<noteq> ''Root''"
    and "propertyType (props s p2) \<noteq> ''Root''"
    and "propertyType (props s root) = ''Root''"
    and "n \<noteq> p1" and "n \<noteq> p2"
    and "ownsExtensions s n"
  shows "listParents (snd (detach s n)) n = [root] \<and>
         \<not> disposed (props (snd (detach s n)) n) \<and>
         extensions (props (snd (detach s n)) n) = extensions (props s n) \<and>
         filter (\<lambda>l. lparent l = n) (links (snd (detach s n))) =
           filter (\<lambda>l. lparent l = n) (links s)"
proof -
  let ?gone = "\<lambda>l. lchild l = n \<and> propertyType (props s (lparent l)) \<noteq> ''Root''"
  have "set (filter (\<lambda>p. propertyType (props s p) = ''Root'') (listParents s n)) = {root}"
    using assms(2-5) by auto
  then have a: "listParents (snd (detach s n)) n = [root]"
    unfolding listParents_detach
    by (intro distinct_set_singleton) (simp_all add: distinct_listParents)
  have b: "\<not> disposed (props (snd (detach s n)) n)"
    using assms(1) by (simp add: detach_eq disconnectParents_def disposeLinks_simps)
  have own: "\<not> ?gone l" if "l \<in> set (links s)" "lparent l = n" for l
  proof
    assume g: "?gone l"
    with that have "n \<in> set (listParents s n)"
      by (auto simp: listParents_def set_listGraphParents image_iff)
    with assms(2,6,7) have "n = root" by auto
    with g that assms(5) show False by simp
  qed
  have "filter (\<lambda>l. l \<notin> set (filter ?gone (links s))) (extensions (props s n)) =
          extensions (props s n)"
    unfolding filter_id_conv
  proof
    fix l assume l: "l \<in> set (extensions (props s n))"
    with assms(8) have "lparent l = n"
      by (simp add: ownsExtensions_def list_all_iff)
    with own [of l] show "l \<notin> set (filter ?gone (links s))" by auto
  qed
  then have c: "extensions (props (snd (detach s n)) n) = extensions (props s n)"
    by (simp add: detach_eq disconnectParents_def disposeLinks_simps)
  have d: "filter (\<lambda>l. lparent l = n) (links (snd (detach s n))) =
           filter (\<lambda>l. lparent l = n) (links s)"
    using own by (auto simp: detach_eq links_disconnectParents intro: filter_cong)
  from a b c d show ?thesis by simp
qed

theorem detach_keeps_root_only_witness:
  "\<not> disposed (props scene_shared 7) \<and>
   set (listParents scene_shared 7) = {1, 2, 0} \<and>
   propertyType (props scene_shared 1) \<noteq> ''Root'' \<and>
   propertyType (props scene_shared 2) \<noteq> ''Root'' \<and>
   propertyType (props scene_shared 0) = ''Root'' \<and>
   (7::nat) \<noteq> 1 \<and> (7::nat) \<noteq> 2 \<and>
   ownsExtensions scene_shared 7 \<and>
   listParents (snd (detach scene_shared 7)) 7 = [0] \<and>
   \<not> disposed (props (snd (detach scene_shared 7)) 7) \<and>
   extensions (props (snd (detach scene_shared 7)) 7) = extensions (props scene_shared 7)"
proof -
  have a: "\<not> disposed (props scene_shared 7)"
    by (simp add: scene_shared_def scene_def run)
  have b: "set (listParents scene_shared 7) = {1, 2, 0}"
    by (auto simp: scene_shared_facts)
  have c: "propertyType (props scene_shared 1) \<noteq> ''Root''"
    by (simp add: scene_shared_def scene_def run)
  have d: "propertyType (props scene_shared 2) \<noteq> ''Root''"
    by (simp add: scene_shared_def scene_def run)
  have e: "propertyType (props scene_shared 0) = ''Root''"
    by (simp add: scene_shared_def scene_def run)
  have f: "(7::nat) \<noteq> 1" and g: "(7::nat) \<noteq> 2" by simp_all
  have h: "ownsExtensions scene_shared 7"
    by (simp add: ownsExtensions_def scene_shared_facts)
  from detach_keeps_root_only [OF a b c d e f g h] a b c d e f g h
  show ?thesis by blast
qed

text \<open>
  The claim as stated covers a node that is one of its own parents. The extension
  property 3 of \<open>scene_self\<close> is not disposed and its parents are the material 1,
  3 itself and the root 0. \<open>detach\<close> leaves the root as its only parent, but the
  link of 3 to itself was one of its own outgoing links: its extensions, \<open>[3]\<close>
  before, are empty afterwards.
\<close>

theorem detach_self_link_counterexample:
  "\<not> disposed (props scene_self 3) \<and>
   set (listParents scene_self 3) = {1, 3, 0} \<and>
   propertyType (props scene_self 1) \<noteq> ''Root'' \<and>
   propertyType (props scene_self 3) \<noteq> ''Root'' \<and>
   propertyType (props scene_self 0) = ''Root'' \<and>
   listExtensions scene_self 3 = [3] \<and>
   listParents (snd (detach scene_self 3)) 3 = [0] \<and>
   listExtensions (snd (detach scene_self 3)) 3 = []"
  by (simp add: scene_self_def scene_def run insert_commute)

subsection \<open>C3: dispose\<close>




subsection \<open>C4: a rejected replacement has already removed the previous link\<close>

text \<open>
  Claim C4, as amended. Every graph mutation is atomic except a replacement by
  \<open>setExtension\<close> that fails. \<open>link\<close> applies or is rejected with the store
  unchanged; \<open>setName\<close>, \<open>setExtras\<close> and \<open>detach\<close> never fail. A call of
  \<open>setExtension\<close> that fails while no extension with the identifier of its token
  is attached has changed nothing. A call that fails while such an extension \<open>c\<close>
  is attached has already removed it from the host: it leaves the store as
  \<open>setExtension(t, null)\<close> leaves it, with \<open>c\<close> out of the extensions of the host.
\<close>

theorem mutations_atomic_except_replacement:
  "(\<forall>err. fst (link s g nm parent child) = Inl err \<longrightarrow> snd (link s g nm parent child) = s) \<and>
   fst (setName s h nm') = Inr h \<and>
   fst (setExtras s h ex) = Inr h \<and>
   fst (detach s h) = Inr h \<and>
   (\<forall>err. fst (setExtension s h t x) = Inl err \<longrightarrow>
      snd (setExtension s h t x) = snd (setExtension s h t None) \<and>
      (getExtension s h t = None \<longrightarrow> snd (setExtension s h t x) = s) \<and>
      (\<forall>c. getExtension s h t = Some c \<longrightarrow>
         c \<in> set (listExtensions s h) \<and>
         c \<notin> set (listExtensions (snd (setExtension s h t x)) h) \<and>
         listExtensions (snd (setExtension s h t x)) h =
           filter (\<lambda>d. d \<noteq> c) (listExtensions s h)))"
proof (intro conjI)
  show "\<forall>err. fst (link s g nm parent child) = Inl err \<longrightarrow> snd (link s g nm parent child) = s"
    by (simp add: link_def Let_def)
  show "fst (setName s h nm') = Inr h"
    by (simp add: setName_def)
  show "fst (setExtras s h ex) = Inr h"
    by (simp add: setExtras_def)
  show "fst (detach s h) = Inr h"
    by (simp add: detach_eq)
  show "\<forall>err. fst (setExtension s h t x) = Inl err \<longrightarrow>
      snd (setExtension s h t x) = snd (setExtension s h t None) \<and>
      (getExtension s h t = None \<longrightarrow> snd (setExtension s h t x) = s) \<and>
      (\<forall>c. getExtension s h t = Some c \<longrightarrow>
         c \<in> set (listExtensions s h) \<and>
         c \<notin> set (listExtensions (snd (setExtension s h t x)) h) \<and>
         listExtensions (snd (setExtension s h t x)) h =
           filter (\<lambda>d. d \<noteq> c) (listExtensions s h))"
  proof (cases x)
    case None
    then show ?thesis by (simp add: setExtension_null)
  next
    case (Some e)
    show ?thesis
    proof (cases "linkable s (p_graph (props s h)) h e")
      case True
      with Some show ?thesis by (simp add: setExtension_linked)
    next
      case False
      have "c \<in> set (listExtensions s h)" if "getExtension s h t = Some c" for c
        using getExtension_SomeD [OF that] by (auto simp: listExtensions_def)
      with False Some show ?thesis
        by (auto simp: setExtension_rejected setExtension_null removePrevious_def
              listExtensions_def removeGraphChild_extensions filter_map comp_def)
    qed
  qed
qed

theorem mutations_atomic_except_replacement_witness:
  "fst (setExtension scene_b 1 ''KHR_b'' (Some 6)) = Inl InvalidOperation \<and>
   getExtension scene_b 1 ''KHR_b'' = Some 5 \<and>
   snd (setExtension scene_b 1 ''KHR_b'' (Some 6)) = snd (setExtension scene_b 1 ''KHR_b'' None) \<and>
   5 \<notin> set (listExtensions (snd (setExtension scene_b 1 ''KHR_b'' (Some 6))) 1) \<and>
   getExtension scene 2 ''KHR_b'' = None \<and>
   fst (setExtension scene 2 ''KHR_b'' (Some 6)) = Inl InvalidOperation \<and>
   snd (setExtension scene 2 ''KHR_b'' (Some 6)) = scene \<and>
   fst (link scene 0 ''KHR_b'' 2 6) = Inl InvalidOperation \<and>
   snd (link scene 0 ''KHR_b'' 2 6) = scene"
proof -
  have r: "fst (setExtension scene_b 1 ''KHR_b'' (Some 6)) = Inl InvalidOperation"
    by (simp add: setExtension_rejected scene_b_eq scene_def construct_def linkable_def)
  have g: "getExtension scene_b 1 ''KHR_b'' = Some 5"
    by (simp add: scene_b_eq scene_def run)
  have r': "fst (setExtension scene 2 ''KHR_b'' (Some 6)) = Inl InvalidOperation"
    by (simp add: scene_def run)
  have g': "getExtension scene 2 ''KHR_b'' = None"
    by (simp add: scene_def run)
  have k: "fst (link scene 0 ''KHR_b'' 2 6) = Inl InvalidOperation"
    by (simp add: scene_def run)
  from mutations_atomic_except_replacement
         [of scene_b 0 "''KHR_b''" 2 6 1 "''steel''" "[]" "''KHR_b''" "Some 6"] r g
  have 1: "snd (setExtension scene_b 1 ''KHR_b'' (Some 6)) = snd (setExtension scene_b 1 ''KHR_b'' None) \<and>
     5 \<notin> set (listExtensions (snd (setExtension scene_b 1 ''KHR_b'' (Some 6))) 1)"
    by blast
  from mutations_atomic_except_replacement
         [of scene 0 "''KHR_b''" 2 6 2 "''steel''" "[]" "''KHR_b''" "Some 6"] r' g' k
  have 2: "snd (setExtension scene 2 ''KHR_b'' (Some 6)) = scene \<and>
     snd (link scene 0 ''KHR_b'' 2 6) = scene"
    by blast
  from 1 2 r g r' g' k show ?thesis by blast
qed

text \<open>
  The claim as stated lets every operation apply in full or be rejected before any link
  list is changed. The material 1 holds the extension 5 (\<open>KHR_b\<close>); replacing it by the
  extension 6 of another graph fails, and the list of extensions of the material, which
  was \<open>[5]\<close>, is empty afterwards.
\<close>

theorem setExtension_atomic_counterexample:
  "fst (setExtension scene_b 1 ''KHR_b'' (Some 6)) = Inl InvalidOperation \<and>
   listExtensions scene_b 1 = [5] \<and>
   listExtensions (snd (setExtension scene_b 1 ''KHR_b'' (Some 6))) 1 = [] \<and>
   links scene_b \<noteq> links (snd (setExtension scene_b 1 ''KHR_b'' (Some 6)))"
  by (simp add: scene_b_eq scene_def run)

subsection \<open>C5: removing an extension\<close>

text \<open>
  Claim C5. \<open>setExtension(t, null)\<close> on a host with no extension of the identifier of
  \<open>t\<close> attached returns the host and leaves the whole store, so also
  \<open>listExtensions()\<close>, unchanged. When an extension \<open>e\<close> with that identifier is
  attached (it is then among the extensions of the host), the call returns the host,
  \<open>e\<close> is removed from the extensions of the host, the links of the host to \<open>e\<close>
  leave the registry, and no node is disposed by the call, in particular not \<open>e\<close>.
\<close>

theorem setExtension_null_removes:
  "(getExtension s h t = None \<longrightarrow> setExtension s h t None = (Inr h, s)) \<and>
   (getExtension s h t = Some e \<longrightarrow>
      fst (setExtension s h t None) = Inr h \<and>
      e \<in> set (listExtensions s h) \<and>
      listExtensions (snd (setExtension s h t None)) h = filter (\<lambda>c. c \<noteq> e) (listExtensions s h) \<and>
      (\<forall>l \<in> set (extensions (props s h)). lchild l = e \<longrightarrow> l \<notin> set (links (snd (setExtension s h t None)))) \<and>
      (\<forall>i. disposed (props (snd (setExtension s h t None)) i) = disposed (props s i)))"
proof (intro conjI impI)
  assume "getExtension s h t = None"
  then show "setExtension s h t None = (Inr h, s)"
    by (simp add: setExtension_null removePrevious_def)
next
  assume g: "getExtension s h t = Some e"
  show "fst (setExtension s h t None) = Inr h"
    by (simp add: setExtension_null)
  from getExtension_SomeD [OF g] show "e \<in> set (listExtensions s h)"
    by (auto simp: listExtensions_def)
  show "listExtensions (snd (setExtension s h t None)) h = filter (\<lambda>c. c \<noteq> e) (listExtensions s h)"
    by (simp add: setExtension_null listExtensions_def removePrevious_extensions g filter_map comp_def)
  show "\<forall>l \<in> set (extensions (props s h)). lchild l = e \<longrightarrow> l \<notin> set (links (snd (setExtension s h t None)))"
    by (simp add: setExtension_null removePrevious_def g removeGraphChild_simps)
  show "\<forall>i. disposed (props (snd (setExtension s h t None)) i) = disposed (props s i)"
    by (simp add: setExtension_fields)
qed

theorem setExtension_null_removes_witness:
  "getExtension scene 1 ''KHR_b'' = None \<and>
   setExtension scene 1 ''KHR_b'' None = (Inr 1, scene) \<and>
   getExtension scene_b 1 ''KHR_b'' = Some 5 \<and>
   fst (setExtension scene_b 1 ''KHR_b'' None) = Inr 1 \<and>
   listExtensions (snd (setExtension scene_b 1 ''KHR_b'' None)) 1 =
     filter (\<lambda>c. c \<noteq> 5) (listExtensions scene_b 1) \<and>
   disposed (props (snd (setExtension scene_b 1 ''KHR_b'' None)) 5) =
     disposed (props scene_b 5)"
proof -
  have n: "getExtension scene 1 ''KHR_b'' = None"
    by (simp add: scene_def run)
  have g: "getExtension scene_b 1 ''KHR_b'' = Some 5"
    by (simp add: scene_b_eq scene_def run)
  from setExtension_null_removes [of scene 1 "''KHR_b''" 5] n
  have 1: "setExtension scene 1 ''KHR_b'' None = (Inr 1, scene)" by blast
  from setExtension_null_removes [of scene_b 1 "''KHR_b''" 5] g
  have 2: "fst (setExtension scene_b 1 ''KHR_b'' None) = Inr 1 \<and>
     listExtensions (snd (setExtension scene_b 1 ''KHR_b'' None)) 1 =
       filter (\<lambda>c. c \<noteq> 5) (listExtensions scene_b 1) \<and>
     disposed (props (snd (setExtension scene_b 1 ''KHR_b'' None)) 5) =
       disposed (props scene_b 5)"
    by blast
  from n g 1 2 show ?thesis by blast
qed

subsection \<open>C6: looking an extension up\<close>

text \<open>
  Claim C6. \<open>getExtension(t)\<close> scans the extension links of the host in order: it
  returns null exactly when no link has a child whose extension identifier is the
  identifier of \<open>t\<close>, and it returns \<open>c\<close> exactly when \<open>c\<close> is the child of the
  first such link (the link at the least position \<open>i\<close> whose child has that
  identifier).
\<close>

theorem getExtension_first_match:
  "(getExtension s this ctor = None \<longleftrightarrow>
      (\<forall>l \<in> set (extensions (props s this)). extensionName (props s (lchild l)) \<noteq> ctor)) \<and>
   (getExtension s this ctor = Some c \<longleftrightarrow>
      (\<exists>i < length (extensions (props s this)).
         lchild (extensions (props s this) ! i) = c \<and>
         extensionName (props s (lchild (extensions (props s this) ! i))) = ctor \<and>
         (\<forall>j < i. extensionName (props s (lchild (extensions (props s this) ! j))) \<noteq> ctor)))"
  unfolding getExtension_None_iff
  unfolding getExtension_def
  by (simp only: find_child_iff simp_thms)

theorem getExtension_first_match_witness:
  "getExtension scene_ba 1 ''KHR_a'' = Some 3 \<and> getExtension scene_b 1 ''KHR_a'' = None"
proof -
  have "\<exists>i < length (extensions (props scene_ba 1)).
         lchild (extensions (props scene_ba 1) ! i) = 3 \<and>
         extensionName (props scene_ba (lchild (extensions (props scene_ba 1) ! i))) = ''KHR_a'' \<and>
         (\<forall>j < i. extensionName (props scene_ba (lchild (extensions (props scene_ba 1) ! j)))
                    \<noteq> ''KHR_a'')"
    by (rule exI [of _ 1])
       (simp add: scene_ba_facts, simp add: scene_ba_def scene_b_eq scene_def run)
  with getExtension_first_match [of scene_ba 1 "''KHR_a''" 3]
  have 1: "getExtension scene_ba 1 ''KHR_a'' = Some 3" by blast
  have "\<forall>l \<in> set (extensions (props scene_b 1)).
          extensionName (props scene_b (lchild l)) \<noteq> ''KHR_a''"
    by (simp add: scene_b_eq scene_def run)
  with getExtension_first_match [of scene_b 1 "''KHR_a''" 3]
  have 2: "getExtension scene_b 1 ''KHR_a'' = None" by blast
  from 1 2 show ?thesis by blast
qed

subsection \<open>C7: clone\<close>

text \<open>
  Claim C7. \<open>clone()\<close> of the base class fails with \<open>NotImplemented\<close> on every node
  and in every store; it never returns a node, and it changes nothing.
\<close>

theorem clone_not_implemented:
  "fst (clone s this) = Inl NotImplemented \<and> (\<forall>n. fst (clone s this) \<noteq> Inr n) \<and> snd (clone s this) = s"
  by (simp add: clone_def)

theorem clone_not_implemented_witness:
  "fst (clone scene 1) = Inl NotImplemented \<and> fst (clone scene 1) \<noteq> Inr 1"
  using clone_not_implemented [of scene 1] by blast

subsection \<open>C8: the token decides what is removed, the extension what is added\<close>

text \<open>
  Claim C8. On a host whose extension links have pairwise different identifiers, a call
  \<open>setExtension(ctor, ext)\<close> that link creation accepts removes the link whose child
  has the identifier \<open>ctor.EXTENSION_NAME\<close> and appends a link to \<open>ext\<close> named
  \<open>ext.extensionName\<close>. The identifiers are pairwise different afterwards exactly when
  \<open>ctor.EXTENSION_NAME\<close> equals \<open>ext.extensionName\<close> or no extension with the
  identifier of \<open>ext\<close> was attached: the invariant is guaranteed only when the token
  and the extension agree.
\<close>

theorem setExtension_keyed_by_extension_name:
  assumes "uniqueExtensions s h" and "linkable s (p_graph (props s h)) h e"
  shows "extensions (props (snd (setExtension s h ctor (Some e))) h) =
           filter (\<lambda>l. extensionName (props s (lchild l)) \<noteq> ctor) (extensions (props s h)) @
           [\<lparr>lid = fresh s, lname = extensionName (props s e), lparent = h, lchild = e\<rparr>] \<and>
         (uniqueExtensions (snd (setExtension s h ctor (Some e))) h \<longleftrightarrow>
            (ctor = extensionName (props s e) \<or>
             extensionName (props s e) \<notin>
               (\<lambda>l. extensionName (props s (lchild l))) ` set (extensions (props s h))))"
proof
  show "extensions (props (snd (setExtension s h ctor (Some e))) h) =
           filter (\<lambda>l. extensionName (props s (lchild l)) \<noteq> ctor) (extensions (props s h)) @
           [\<lparr>lid = fresh s, lname = extensionName (props s e), lparent = h, lchild = e\<rparr>]"
    by (simp add: setExtension_linked_extensions(1) [OF assms(2)]
          removePrevious_unique [OF assms(1)] newLink_def)
next
  show "uniqueExtensions (snd (setExtension s h ctor (Some e))) h \<longleftrightarrow>
            (ctor = extensionName (props s e) \<or>
             extensionName (props s e) \<notin>
               (\<lambda>l. extensionName (props s (lchild l))) ` set (extensions (props s h)))"
    by (rule uniqueExtensions_linked_iff [OF assms])
qed

theorem setExtension_keyed_by_extension_name_witness:
  "uniqueExtensions scene_b 1 \<and>
   linkable scene_b (p_graph (props scene_b 1)) 1 8 \<and>
   extensions (props (snd (setExtension scene_b 1 ''KHR_a'' (Some 8))) 1) =
     [\<lparr>lid = 0, lname = ''KHR_b'', lparent = 1, lchild = 5\<rparr>,
      \<lparr>lid = 1, lname = ''KHR_b'', lparent = 1, lchild = 8\<rparr>] \<and>
   \<not> uniqueExtensions (snd (setExtension scene_b 1 ''KHR_a'' (Some 8))) 1"
proof -
  have a: "uniqueExtensions scene_b 1"
    by (simp add: scene_b_eq scene_def run)
  have b: "linkable scene_b (p_graph (props scene_b 1)) 1 8"
    by (simp add: scene_b_eq scene_def run)
  have m: "\<not> (''KHR_a'' = extensionName (props scene_b 8) \<or>
             extensionName (props scene_b 8) \<notin>
               (\<lambda>l. extensionName (props scene_b (lchild l))) ` set (extensions (props scene_b 1)))"
    by (simp add: scene_b_eq scene_def run)
  have x: "filter (\<lambda>l. extensionName (props scene_b (lchild l)) \<noteq> ''KHR_a'')
             (extensions (props scene_b 1)) @
           [\<lparr>lid = fresh scene_b, lname = extensionName (props scene_b 8), lparent = 1, lchild = 8\<rparr>] =
           [\<lparr>lid = 0, lname = ''KHR_b'', lparent = 1, lchild = 5\<rparr>,
            \<lparr>lid = 1, lname = ''KHR_b'', lparent = 1, lchild = 8\<rparr>]"
    by (simp add: scene_b_eq scene_def run)
  from setExtension_keyed_by_extension_name [OF a b, of "''KHR_a''"] m x a b
  show ?thesis by simp
qed

subsection \<open>C9: a replacement goes to the end\<close>

text \<open>
  Claim C9. On a host whose extensions are \<open>[a, b]\<close>, with different identifiers,
  setting the identifier of \<open>a\<close> to an extension \<open>a'\<close> of that identifier (which link
  creation accepts) returns the host and yields the extensions \<open>[b, a']\<close>, not
  \<open>[a', b]\<close>: the old link is removed and the new one appended.
\<close>

theorem setExtension_appends_replacement:
  assumes "listExtensions s h = [a, b]"
    and "extensionName (props s a) \<noteq> extensionName (props s b)"
    and "extensionName (props s a') = extensionName (props s a)"
    and "linkable s (p_graph (props s h)) h a'"
  shows "fst (setExtension s h (extensionName (props s a)) (Some a')) = Inr h \<and>
         listExtensions (snd (setExtension s h (extensionName (props s a)) (Some a'))) h = [b, a'] \<and>
         listExtensions (snd (setExtension s h (extensionName (props s a)) (Some a'))) h \<noteq> [a', b]"
proof -
  from assms(1) obtain la lb where
    ex: "extensions (props s h) = [la, lb]" "lchild la = a" "lchild lb = b"
    by (auto simp: listExtensions_def)
  from assms(2) have ab: "a \<noteq> b" by auto
  from assms(2,3) have a'b: "a' \<noteq> b" by auto
  have g: "getExtension s h (extensionName (props s a)) = Some a"
    by (simp add: getExtension_def ex)
  have "extensions (props (removePrevious s h (extensionName (props s a))) h) = [lb]"
    using ab by (simp add: removePrevious_extensions g ex)
  then have "listExtensions (snd (setExtension s h (extensionName (props s a)) (Some a'))) h = [b, a']"
    by (simp add: listExtensions_def setExtension_linked_extensions(1) [OF assms(4)] ex newLink_def)
  with a'b show ?thesis
    by (simp add: setExtension_linked_extensions(4) [OF assms(4)])
qed

theorem setExtension_appends_replacement_witness:
  "listExtensions scene_ba 1 = [5, 3] \<and>
   extensionName (props scene_ba 5) \<noteq> extensionName (props scene_ba 3) \<and>
   extensionName (props scene_ba 8) = extensionName (props scene_ba 5) \<and>
   linkable scene_ba (p_graph (props scene_ba 1)) 1 8 \<and>
   listExtensions
     (snd (setExtension scene_ba 1 (extensionName (props scene_ba 5)) (Some 8))) 1 = [3, 8]"
proof -
  have a: "listExtensions scene_ba 1 = [5, 3]"
    unfolding listExtensions_def scene_ba_facts by simp
  have b: "extensionName (props scene_ba 5) \<noteq> extensionName (props scene_ba 3)"
    by (simp add: scene_ba_def scene_b_eq scene_def run)
  have c: "extensionName (props scene_ba 8) = extensionName (props scene_ba 5)"
    by (simp add: scene_ba_def scene_b_eq scene_def run)
  have d: "linkable scene_ba (p_graph (props scene_ba 1)) 1 8"
    by (simp add: scene_ba_def scene_b_eq scene_def run)
  from setExtension_appends_replacement [OF a b c d] a b c d show ?thesis by blast
qed

subsection \<open>C10: the mutators return the receiver\<close>

text \<open>
  Claim C10, as amended. \<open>setName\<close>, \<open>setExtras\<close> and \<open>detach\<close> return the
  receiver for every input, and so does \<open>setExtension\<close> with a null extension. With an
  extension, \<open>setExtension\<close> returns the receiver when link creation accepts the pair
  of host and extension, and otherwise it returns nothing: it fails with
  \<open>InvalidOperation\<close>.
\<close>

theorem mutators_return_receiver:
  "fst (setName s this nm) = Inr this \<and>
   fst (setExtras s this ex) = Inr this \<and>
   fst (detach s this) = Inr this \<and>
   fst (setExtension s this ctor None) = Inr this \<and>
   fst (setExtension s this ctor (Some e)) =
     (if linkable s (p_graph (props s this)) this e then Inr this else Inl InvalidOperation)"
  by (simp add: setName_def setExtras_def detach_eq setExtension_null
        setExtension_rejected setExtension_linked)

theorem mutators_return_receiver_witness:
  "linkable scene (p_graph (props scene 1)) 1 3 \<and>
   fst (setExtension scene 1 ''KHR_a'' (Some 3)) = Inr 1 \<and>
   fst (setName scene 1 ''steel'') = Inr 1 \<and>
   fst (setExtras scene 1 [(''k'', ''v'')]) = Inr 1 \<and>
   fst (detach scene 1) = Inr 1"
proof -
  have a: "linkable scene (p_graph (props scene 1)) 1 3"
    by (simp add: scene_def run)
  from mutators_return_receiver [of scene 1 "''steel''" "[(''k'', ''v'')]" "''KHR_a''" 3] a
  show ?thesis by simp
qed

text \<open>
  The claim as stated lets \<open>setExtension\<close> return the receiver for every input. The
  mesh 2 and the extension 6 belong to different graphs: the call fails and returns
  nothing.
\<close>

theorem setExtension_returns_receiver_counterexample:
  "fst (setExtension scene 2 ''KHR_b'' (Some 6)) = Inl InvalidOperation \<and>
   fst (setExtension scene 2 ''KHR_b'' (Some 6)) \<noteq> Inr 2"
  by (simp add: scene_def run)

end
